theory Spec2Isabelle
  imports Complex_Main "HOL-Library.Word"
begin

section \<open>llm-engine: tensor.hpp\<close>

text \<open>
  \<^verbatim>\<open>enum class DType { FP32, FP16, INT8, Q4 };\<close>
\<close>

datatype DType = FP32 | FP16 | INT8 | Q4

text \<open>
  \<^verbatim>\<open>class Tensor\<close> declares no data member: an object carries no state, and both
  constructors have empty bodies. A value of the class is therefore the one value of a
  one-constructor datatype. Pointers are either null or an address.
\<close>

datatype Tensor = TensorObj

datatype 'a ptr = nullptr | Addr nat

text \<open>\<^verbatim>\<open>Tensor() = default;\<close>\<close>

definition Tensor_default :: Tensor where
  "Tensor_default = TensorObj"

text \<open>\<^verbatim>\<open>Tensor(const std::vector<int>& shape, DType dtype) {}\<close>: both arguments are dropped.\<close>

definition Tensor_ctor :: "32 word list \<Rightarrow> DType \<Rightarrow> Tensor" where
  "Tensor_ctor shape dtype = TensorObj"

text \<open>\<^verbatim>\<open>void* raw() { return nullptr; }\<close>\<close>

definition raw :: "Tensor \<Rightarrow> unit ptr" where
  "raw t = nullptr"

text \<open>\<^verbatim>\<open>template<typename T> T* data() { return nullptr; }\<close>: the template parameter is the
  type variable of the pointer.\<close>

definition data :: "Tensor \<Rightarrow> 'a ptr" where
  "data t = nullptr"

text \<open>\<^verbatim>\<open>size_t byte_size() const { return 0; }\<close>\<close>

definition byte_size :: "Tensor \<Rightarrow> 64 word" where
  "byte_size t = 0"

text \<open>\<^verbatim>\<open>std::vector<int> shape() const { return {}; }\<close>\<close>

definition shape :: "Tensor \<Rightarrow> 32 word list" where
  "shape t = []"


section \<open>llm-engine: main.cpp\<close>

text \<open>
  What \<^verbatim>\<open>main\<close> does beyond returning its exit code is a trace of events: each
  \<^verbatim>\<open><<\<close> on \<^verbatim>\<open>std::cout\<close> or \<^verbatim>\<open>std::cerr\<close> is one event, and so is the call of
  \<^verbatim>\<open>load_onnx_initializers\<close>.
\<close>

datatype out_item = Str string | Num nat | Endl

datatype event = Cout out_item | Cerr out_item | Load string

text \<open>
  \<^verbatim>\<open>load_onnx_initializers\<close> is only declared (loaders/onnx_loader.hpp); \<^verbatim>\<open>main\<close> takes
  it as a parameter. It returns the map of initializers, here the list of its pairs in
  iteration order, or throws a \<^verbatim>\<open>std::exception\<close> with a message.
\<close>

datatype load_result = Loaded "(string \<times> Tensor) list" | Threw string

definition usage :: string where
  "usage = ''Usage: infer --model <path_to_onnx_model> [options]'' @ [CHR 0x0A]"

definition print_usage :: "event list" where
  "print_usage = [Cout (Str usage)]"

text \<open>
  The parsing loop, with the loop index and \<^verbatim>\<open>model_path\<close> as its state:
  \<^verbatim>\<open>
  for (size_t i = 0; i < args.size(); ++i) {
      if (args[i] == "--model" && i + 1 < args.size()) {
          model_path = args[++i];
      }
  }
  \<close>
  When the test succeeds the index is incremented twice: by \<^verbatim>\<open>++i\<close> in the body and by
  the loop header.
\<close>

function parse_loop :: "string list \<Rightarrow> nat \<Rightarrow> string \<Rightarrow> string" where
  "parse_loop args i model_path =
     (if i < length args then
        (if args ! i = ''--model'' \<and> i + 1 < length args
         then parse_loop args (i + 1 + 1) (args ! (i + 1))
         else parse_loop args (i + 1) model_path)
      else model_path)"
  by pat_completeness auto
termination
  by (relation "measure (\<lambda>(args, i, model_path). length args - i)") auto

declare parse_loop.simps [simp del]

text \<open>\<^verbatim>\<open>std::string model_path;\<close> starts empty; \<open>args\<close> are the arguments after the
  program's name.\<close>

definition parse_args :: "string list \<Rightarrow> string" where
  "parse_args args = parse_loop args 0 []"

definition main :: "(string \<Rightarrow> load_result) \<Rightarrow> string list \<Rightarrow> event list \<times> int" where
  "main load_onnx_initializers args =
     (let model_path = parse_args args in
      if model_path = [] then (print_usage, 1)
      else
        (let trace = [Cout (Str ''Loading model from: ''), Cout (Str model_path), Cout Endl,
                      Load model_path]
         in case load_onnx_initializers model_path of
              Loaded initializers \<Rightarrow>
                (trace @
                 [Cout (Str ''Successfully loaded ''), Cout (Num (length initializers)),
                  Cout (Str '' initializers:''), Cout Endl] @
                 concat (map (\<lambda>pair. [Cout (Str '' - ''), Cout (Str (fst pair)), Cout Endl])
                           initializers),
                 0)
            | Threw what \<Rightarrow>
                (trace @ [Cerr (Str ''Error: ''), Cerr (Str what), Cerr Endl], 1)))"

text \<open>The events of a trace that call the loader.\<close>

fun is_Load :: "event \<Rightarrow> bool" where
  "is_Load (Load p) = True"
| "is_Load _ = False"


text \<open>
  The reading of the parsing loop that ignores consumption: \<open>model_path\<close> is the argument
  after the last \<open>--model\<close> that has a following argument, or empty when there is none.
  It is compared with \<open>parse_args\<close> below.
\<close>

definition spec_model_path :: "string list \<Rightarrow> string" where
  "spec_model_path args =
     (let occ = filter (\<lambda>i. args ! i = ''--model'' \<and> i + 1 < length args) [0..<length args]
      in if occ = [] then [] else args ! (last occ + 1))"

text \<open>
  \<open>run_before args i\<close> counts the \<open>--model\<close> arguments that stand directly before index
  \<open>i\<close> without a gap. A \<open>--model\<close> is read as the option when that count is even and an
  argument follows it; when the count is odd it is the value of the \<open>--model\<close> before it.
\<close>

fun run_before :: "string list \<Rightarrow> nat \<Rightarrow> nat" where
  "run_before args 0 = 0"
| "run_before args (Suc i) = (if args ! i = ''--model'' then Suc (run_before args i) else 0)"

definition option_pos :: "string list \<Rightarrow> nat \<Rightarrow> bool" where
  "option_pos args i \<longleftrightarrow>
     args ! i = ''--model'' \<and> i + 1 < length args \<and> even (run_before args i)"

definition model_options :: "string list \<Rightarrow> nat list" where
  "model_options args = filter (option_pos args) [0..<length args]"


section \<open>Graph Store and Resolver\<close>

text \<open>
  The sources hold the inference binary's \<^verbatim>\<open>main.cpp\<close> and \<^verbatim>\<open>tensor.hpp\<close> only; the graph
  engine of the design (sections 3, 4.2, 4.3, 7 and 9 of the specification) is not among
  them. The definitions of this section are written from the specification's words.
  Names follow the specification; \<open>eid\<close> stands for an Entity's \<open>id\<close>, \<open>entity_type\<close> and
  \<open>mention_type\<close> for \<open>type\<close>, and a field that two records share carries the record in
  its name (\<open>relation_chunks\<close> for a Relationship's \<open>supporting_chunks\<close>, \<open>mention_chunk\<close>
  and \<open>relation_chunk\<close> for the mentions' \<open>chunk_id\<close>).
\<close>

text \<open>Modelled from the spec: the error taxonomy of section 7; no error type is in the
  sources.\<close>

datatype error =
    ExtractionParseError
  | ResolutionConflict
  | GraphInvariantViolation
  | CommunityDetectionFailure
  | RetrievalTimeout
  | ModelUnavailable

type_synonym entity_id = nat
type_synonym chunk_id = nat

text \<open>Modelled from the spec: the canonical node of section 3 (the Entity type is missing
  from the sources). Ids are the arena's stable integers. The \<open>degree\<close> of the
  specification is the function \<open>degree\<close> below, read off the relationships.\<close>

record Entity =
  eid :: entity_id
  canonical_name :: string
  entity_type :: string
  aliases :: "string set"
  description :: string
  supporting_chunks :: "chunk_id set"

text \<open>Modelled from the spec: the canonical edge of section 3 (the Relationship type is
  missing from the sources). The float weight is an exact real here; nothing below
  depends on rounding.\<close>

record Relationship =
  source_entity_id :: entity_id
  target_entity_id :: entity_id
  relation_type :: string
  weight :: real
  relation_chunks :: "chunk_id set"

text \<open>Modelled from the spec: the Graph of section 3, which owns the Entities and the
  Relationships (the Graph type is missing from the sources). Both are kept in insertion
  order.\<close>

record Graph =
  entities :: "Entity list"
  relationships :: "Relationship list"

text \<open>Modelled from the spec: the transient EntityMention of section 3, missing from the
  sources.\<close>

record EntityMention =
  mention_chunk :: chunk_id
  surface_text :: string
  mention_type :: string
  mention_description :: string
  confidence :: real

text \<open>Modelled from the spec: the transient RelationshipMention of section 3, missing from
  the sources.\<close>

record RelationshipMention =
  relation_chunk :: chunk_id
  source_surface :: string
  target_surface :: string
  relation_text :: string
  strength :: real

text \<open>Modelled from the spec: the graph before any ingestion (no constructor of the Graph
  is in the sources).\<close>

definition empty_graph :: Graph where
  "empty_graph = \<lparr>entities = [], relationships = []\<rparr>"

text \<open>Modelled from the spec: the ids of the Entity set, against which section 3 states
  that every Relationship's endpoints exist.\<close>

definition entity_ids :: "Graph \<Rightarrow> entity_id set" where
  "entity_ids g = eid ` set (entities g)"

text \<open>Modelled from the spec: the degree field of an Entity, as the number of
  relationships incident to it.\<close>

definition degree :: "Graph \<Rightarrow> entity_id \<Rightarrow> nat" where
  "degree g i =
     length (filter (\<lambda>r. source_entity_id r = i \<or> target_entity_id r = i) (relationships g))"

text \<open>Modelled from the spec: \<open>upsert_entity\<close> of the Graph Store contract (section 4.3),
  missing from the sources. An Entity whose id is present is replaced, another is added;
  an upsert never removes an Entity.\<close>

definition upsert_entity :: "Graph \<Rightarrow> Entity \<Rightarrow> Graph" where
  "upsert_entity g e =
     (if eid e \<in> entity_ids g
      then g\<lparr>entities := map (\<lambda>x. if eid x = eid e then e else x) (entities g)\<rparr>
      else g\<lparr>entities := entities g @ [e]\<rparr>)"

text \<open>Modelled from the spec: the key under which section 3 collapses parallel edges, one
  edge per (source, target, relation_type).\<close>

definition same_edge :: "Relationship \<Rightarrow> Relationship \<Rightarrow> bool" where
  "same_edge r r' \<longleftrightarrow>
     source_entity_id r = source_entity_id r' \<and> target_entity_id r = target_entity_id r' \<and>
     relation_type r = relation_type r'"

text \<open>Modelled from the spec: a parallel mention between the same pair increments the
  weight of the stored edge and adds its chunks (section 3).\<close>

definition absorb :: "Relationship \<Rightarrow> Relationship \<Rightarrow> Relationship" where
  "absorb r' r =
     r'\<lparr>weight := weight r' + weight r,
        relation_chunks := relation_chunks r' \<union> relation_chunks r\<rparr>"

text \<open>Modelled from the spec: \<open>upsert_relationship\<close> of the Graph Store contract (section
  4.3), missing from the sources. The store rejects a self-loop and an edge with a missing
  endpoint, signalling \<open>GraphInvariantViolation\<close>; otherwise the edge is merged into the
  stored edge of the same key or added.\<close>

definition upsert_relationship :: "Graph \<Rightarrow> Relationship \<Rightarrow> error + Graph" where
  "upsert_relationship g r =
     (if source_entity_id r = target_entity_id r then Inl GraphInvariantViolation
      else if \<not> (source_entity_id r \<in> entity_ids g \<and> target_entity_id r \<in> entity_ids g)
        then Inl GraphInvariantViolation
      else if list_ex (same_edge r) (relationships g)
        then Inr (g\<lparr>relationships :=
                      map (\<lambda>r'. if same_edge r r' then absorb r' r else r') (relationships g)\<rparr>)
      else Inr (g\<lparr>relationships := relationships g @ [r]\<rparr>))"

text \<open>Modelled from the spec: the Graph invariant of section 3, every Relationship's
  endpoints exist in the Entity set.\<close>

definition no_dangling :: "Graph \<Rightarrow> bool" where
  "no_dangling g \<longleftrightarrow>
     (\<forall>r \<in> set (relationships g).
        source_entity_id r \<in> entity_ids g \<and> target_entity_id r \<in> entity_ids g)"

text \<open>Modelled from the spec: the mutations that reach the Graph Store (section 4.3: all
  mutation goes through the Resolver, the store only enforces the invariants).\<close>

datatype mutation = UpsertEntity Entity | UpsertRelationship Relationship

text \<open>Modelled from the spec: one mutation against the store; the store's entry point is
  missing from the sources.\<close>

fun commit :: "Graph \<Rightarrow> mutation \<Rightarrow> error + Graph" where
  "commit g (UpsertEntity e) = Inr (upsert_entity g e)"
| "commit g (UpsertRelationship r) = upsert_relationship g r"

text \<open>Modelled from the spec: the state of an ingestion run, the graph with the counts that
  section 7 reports (rejected mutations, dropped relations).\<close>

record run_state =
  graph :: Graph
  violations :: nat
  dropped :: nat

text \<open>Modelled from the spec: the run before the first batch.\<close>

definition initial_state :: run_state where
  "initial_state = \<lparr>graph = empty_graph, violations = 0, dropped = 0\<rparr>"

text \<open>Modelled from the spec: section 7, a \<open>GraphInvariantViolation\<close> is fatal to that
  single mutation and not to the run. The rejected mutation is counted and the graph is
  left as it was.\<close>

definition apply_mutation :: "run_state \<Rightarrow> mutation \<Rightarrow> run_state" where
  "apply_mutation st m =
     (case commit (graph st) m of
        Inr g' \<Rightarrow> st\<lparr>graph := g'\<rparr>
      | Inl e \<Rightarrow> st\<lparr>violations := violations st + 1\<rparr>)"

text \<open>Modelled from the spec: the parts of the Resolver that section 4.2 and the open
  question of section 9 leave to policy: name normalisation, the similarity test with its
  threshold, and how descriptions are combined.\<close>

record policy =
  normalize :: "string \<Rightarrow> string"
  similar :: "EntityMention \<Rightarrow> Entity \<Rightarrow> bool"
  merge_description :: "string \<Rightarrow> string \<Rightarrow> string"

text \<open>Modelled from the spec: the exact normalized-name+type match of section 4.2.\<close>

definition exact_match :: "policy \<Rightarrow> EntityMention \<Rightarrow> Entity \<Rightarrow> bool" where
  "exact_match P m e \<longleftrightarrow>
     normalize P (canonical_name e) = normalize P (surface_text m) \<and>
     entity_type e = mention_type m"

text \<open>Modelled from the spec: candidate matches of a mention (section 4.2), by exact
  match first, then by similarity.\<close>

definition find_match :: "policy \<Rightarrow> Graph \<Rightarrow> EntityMention \<Rightarrow> Entity option" where
  "find_match P g m =
     (case find (exact_match P m) (entities g) of
        Some e \<Rightarrow> Some e
      | None \<Rightarrow> find (similar P m) (entities g))"

text \<open>Modelled from the spec: merging a mention into the matched Entity (section 4.2):
  aliases absorb the surface form, supporting_chunks gains the chunk id, the description
  is combined.\<close>

definition merge_mention :: "policy \<Rightarrow> Entity \<Rightarrow> EntityMention \<Rightarrow> Entity" where
  "merge_mention P e m =
     e\<lparr>aliases := insert (surface_text m) (aliases e),
       supporting_chunks := insert (mention_chunk m) (supporting_chunks e),
       description := merge_description P (description e) (mention_description m)\<rparr>"

text \<open>Modelled from the spec: the next stable integer id of the arena (section 9), above
  every id in use.\<close>

definition fresh_id :: "Graph \<Rightarrow> entity_id" where
  "fresh_id g = foldr (\<lambda>e n. max (Suc (eid e)) n) (entities g) 0"

text \<open>Modelled from the spec: the Entity created on the first unmatched mention
  (sections 3 and 4.2).\<close>

definition new_entity :: "Graph \<Rightarrow> EntityMention \<Rightarrow> Entity" where
  "new_entity g m =
     \<lparr>eid = fresh_id g, canonical_name = surface_text m, entity_type = mention_type m,
      aliases = {surface_text m}, description = mention_description m,
      supporting_chunks = {mention_chunk m}\<rparr>"

text \<open>Modelled from the spec: resolution of one EntityMention (section 4.2): on a match the
  mention is merged into the existing Entity, on no match a new Entity is created.\<close>

definition resolve_entity :: "policy \<Rightarrow> run_state \<Rightarrow> EntityMention \<Rightarrow> run_state" where
  "resolve_entity P st m =
     (case find_match P (graph st) m of
        Some e \<Rightarrow> apply_mutation st (UpsertEntity (merge_mention P e m))
      | None \<Rightarrow> apply_mutation st (UpsertEntity (new_entity (graph st) m)))"

text \<open>Modelled from the spec: mapping a surface endpoint to an already-resolved Entity
  (section 4.2), by its normalized canonical name or alias.\<close>

definition resolve_surface :: "policy \<Rightarrow> Graph \<Rightarrow> string \<Rightarrow> Entity option" where
  "resolve_surface P g s =
     find (\<lambda>e. normalize P s \<in> normalize P ` insert (canonical_name e) (aliases e)) (entities g)"

text \<open>Modelled from the spec: resolution of one RelationshipMention (section 4.2). \<open>None\<close>
  says that an endpoint is not resolved; otherwise the edge goes to the store, which may
  reject it.\<close>

definition resolve_relation ::
  "policy \<Rightarrow> run_state \<Rightarrow> RelationshipMention \<Rightarrow> run_state option" where
  "resolve_relation P st rm =
     (case resolve_surface P (graph st) (source_surface rm) of
        None \<Rightarrow> None
      | Some a \<Rightarrow>
          (case resolve_surface P (graph st) (target_surface rm) of
             None \<Rightarrow> None
           | Some b \<Rightarrow>
               Some (apply_mutation st (UpsertRelationship
                 \<lparr>source_entity_id = eid a, target_entity_id = eid b,
                  relation_type = relation_text rm, weight = strength rm,
                  relation_chunks = {relation_chunk rm}\<rparr>))))"

text \<open>Modelled from the spec: the first pass over a batch's relations (section 4.2): a
  relation with an unresolved endpoint is deferred.\<close>

fun first_pass ::
  "policy \<Rightarrow> run_state \<Rightarrow> RelationshipMention list \<Rightarrow> run_state \<times> RelationshipMention list" where
  "first_pass P st [] = (st, [])"
| "first_pass P st (rm # rms) =
     (case resolve_relation P st rm of
        Some st' \<Rightarrow> first_pass P st' rms
      | None \<Rightarrow> (case first_pass P st rms of (st', deferred) \<Rightarrow> (st', rm # deferred)))"

text \<open>Modelled from the spec: the second pass within the same batch (section 4.2): a
  relation still unresolved is dropped and counted.\<close>

fun second_pass :: "policy \<Rightarrow> run_state \<Rightarrow> RelationshipMention list \<Rightarrow> run_state" where
  "second_pass P st [] = st"
| "second_pass P st (rm # rms) =
     (case resolve_relation P st rm of
        Some st' \<Rightarrow> second_pass P st' rms
      | None \<Rightarrow> second_pass P (st\<lparr>dropped := dropped st + 1\<rparr>) rms)"

text \<open>Modelled from the spec: which Entities the Resolver holds to be duplicates of one
  another is part of the policy that section 9 leaves open. A duplicate policy reads the
  graph and names a pair \<open>(a, b)\<close> of Entity ids, \<open>a\<close> to lose its identity into \<open>b\<close>,
  or none.\<close>

type_synonym duplicate_policy = "Graph \<Rightarrow> (entity_id \<times> entity_id) option"

text \<open>Modelled from the spec: the Entity that survives a merge (sections 3, 4.2 and 8):
  \<open>b\<close> keeps its identity and takes the union of both alias sets and of both
  supporting_chunks sets; the descriptions are combined by the policy.\<close>

definition absorb_entity :: "policy \<Rightarrow> Entity \<Rightarrow> Entity \<Rightarrow> Entity" where
  "absorb_entity P a b =
     b\<lparr>aliases := aliases a \<union> aliases b,
       supporting_chunks := supporting_chunks a \<union> supporting_chunks b,
       description := merge_description P (description b) (description a)\<rparr>"

text \<open>Modelled from the spec: the id remapping of section 9 for one merge, old id \<open>a\<close> to
  surviving id \<open>b\<close>.\<close>

definition remap_id :: "entity_id \<Rightarrow> entity_id \<Rightarrow> entity_id \<Rightarrow> entity_id" where
  "remap_id a b i = (if i = a then b else i)"

text \<open>Modelled from the spec: the id remapping of section 9 applied to the endpoints of a
  stored edge.\<close>

definition redirect :: "entity_id \<Rightarrow> entity_id \<Rightarrow> Relationship \<Rightarrow> Relationship" where
  "redirect a b r =
     r\<lparr>source_entity_id := remap_id a b (source_entity_id r),
       target_entity_id := remap_id a b (target_entity_id r)\<rparr>"

text \<open>Modelled from the spec: the merge of Entity \<open>a\<close> into Entity \<open>b\<close> (section 3: an
  Entity is never deleted, only merged into another, and \<open>a\<close> loses its identity into
  \<open>b\<close>). \<open>a\<close> leaves the Entity set and \<open>b\<close> is replaced by the merged Entity. The
  specification does not say what becomes of the edges of \<open>a\<close>; here every stored edge is
  put to the store again under the remapped ids, so that the store's own rules decide:
  an edge between \<open>a\<close> and \<open>b\<close> has become a self-loop and is rejected and counted, an
  edge that has become parallel to another is collapsed into it. A merge of an Entity
  into itself, or with an id that is not in the graph, changes nothing.\<close>

definition merge_entities :: "policy \<Rightarrow> run_state \<Rightarrow> entity_id \<Rightarrow> entity_id \<Rightarrow> run_state" where
  "merge_entities P st a b =
     (case find (\<lambda>e. eid e = a) (entities (graph st)) of
        None \<Rightarrow> st
      | Some ea \<Rightarrow>
          (case find (\<lambda>e. eid e = b) (entities (graph st)) of
             None \<Rightarrow> st
           | Some eb \<Rightarrow>
               if a = b then st
               else
                 foldl (\<lambda>s r. apply_mutation s (UpsertRelationship (redirect a b r)))
                   (apply_mutation
                      (st\<lparr>graph := \<lparr>entities = filter (\<lambda>e. eid e \<noteq> a) (entities (graph st)),
                                    relationships = []\<rparr>\<rparr>)
                      (UpsertEntity (absorb_entity P ea eb)))
                   (relationships (graph st))))"

text \<open>Modelled from the spec: the Resolver merges duplicates until the policy names no
  further pair (section 4.2: resolving Entities as duplicates converges to one canonical
  Entity). Each merge takes one Entity out of the set, which bounds the loop.\<close>

function merge_pass :: "duplicate_policy \<Rightarrow> policy \<Rightarrow> run_state \<Rightarrow> run_state" where
  "merge_pass D P st =
     (case D (graph st) of
        None \<Rightarrow> st
      | Some (a, b) \<Rightarrow>
          if a \<noteq> b \<and> a \<in> entity_ids (graph st) \<and> b \<in> entity_ids (graph st)
          then merge_pass D P (merge_entities P st a b)
          else st)"
  by pat_completeness auto

text \<open>Modelled from the spec: one EntityMention through the Resolver: the mention is
  matched or creates an Entity, then duplicates are merged (section 5: merges are atomic
  per mention).\<close>

definition resolve_mention ::
  "duplicate_policy \<Rightarrow> policy \<Rightarrow> run_state \<Rightarrow> EntityMention \<Rightarrow> run_state" where
  "resolve_mention D P st m = merge_pass D P (resolve_entity P st m)"

text \<open>Modelled from the spec: \<open>resolve(mentions, relations)\<close> of section 4.2, missing from
  the sources: the entity mentions in order, each followed by the merges it brings about,
  then the two passes over the relations.\<close>

definition resolve ::
  "duplicate_policy \<Rightarrow> policy \<Rightarrow> run_state \<Rightarrow>
   EntityMention list \<times> RelationshipMention list \<Rightarrow> run_state" where
  "resolve D P st batch =
     (case batch of (mentions, relations) \<Rightarrow>
        (case first_pass P (foldl (resolve_mention D P) st mentions) relations of
           (st', deferred) \<Rightarrow> second_pass P st' deferred))"

text \<open>Modelled from the spec: an ingestion run over a sequence of mention sets, each
  resolved into the graph in turn (the ingestion loop is missing from the sources).\<close>

definition ingest ::
  "duplicate_policy \<Rightarrow> policy \<Rightarrow> run_state \<Rightarrow>
   (EntityMention list \<times> RelationshipMention list) list \<Rightarrow> run_state" where
  "ingest D P st batches = foldl (resolve D P) st batches"

subsection \<open>An instance for evaluation\<close>








subsection \<open>An instance with a merge\<close>

text \<open>
  A policy under which the latest description replaces the stored one, and a duplicate
  policy that holds two Entities of one type with equal descriptions to be duplicates,
  the one with the larger id losing its identity. The first batch creates three Entities
  and edges on all of them; one of its relations names an Entity that is never mentioned.
  The second batch brings a mention that makes the third Entity a duplicate of the first.
\<close>

definition example_refining_policy :: policy where
  "example_refining_policy =
     \<lparr>normalize = filter (\<lambda>c. c \<noteq> CHR ''.''), similar = (\<lambda>m e. False),
      merge_description = (\<lambda>stored latest. latest)\<rparr>"

definition example_duplicates :: duplicate_policy where
  "example_duplicates g =
     (case [(eid a, eid b). b \<leftarrow> entities g, a \<leftarrow> entities g, eid b < eid a,
              entity_type a = entity_type b, description a = description b] of
        [] \<Rightarrow> None
      | p # ps \<Rightarrow> Some p)"

definition example_first_batch :: "EntityMention list \<times> RelationshipMention list" where
  "example_first_batch =
     ([\<lparr>mention_chunk = 1, surface_text = ''Marie Curie'', mention_type = ''person'',
        mention_description = ''physicist'', confidence = 1\<rparr>,
       \<lparr>mention_chunk = 2, surface_text = ''Radium'', mention_type = ''element'',
        mention_description = ''metal'', confidence = 1\<rparr>,
       \<lparr>mention_chunk = 3, surface_text = ''M. Curie'', mention_type = ''person'',
        mention_description = ''chemist'', confidence = 1\<rparr>],
      [\<lparr>relation_chunk = 3, source_surface = ''M. Curie'', target_surface = ''Radium'',
        relation_text = ''discovered'', strength = 1 / 2\<rparr>,
       \<lparr>relation_chunk = 3, source_surface = ''Marie Curie'', target_surface = ''M. Curie'',
        relation_text = ''is'', strength = 1 / 2\<rparr>,
       \<lparr>relation_chunk = 1, source_surface = ''Marie Curie'', target_surface = ''Polonium'',
        relation_text = ''discovered'', strength = 1 / 2\<rparr>,
       \<lparr>relation_chunk = 1, source_surface = ''Marie Curie'', target_surface = ''Radium'',
        relation_text = ''discovered'', strength = 1 / 4\<rparr>])"

definition example_second_batch :: "EntityMention list \<times> RelationshipMention list" where
  "example_second_batch =
     ([\<lparr>mention_chunk = 4, surface_text = ''M. Curie'', mention_type = ''person'',
        mention_description = ''physicist'', confidence = 1\<rparr>],
      [\<lparr>relation_chunk = 4, source_surface = ''M. Curie'', target_surface = ''Radium'',
        relation_text = ''studied'', strength = 1 / 2\<rparr>])"

definition example_dangling :: Relationship where
  "example_dangling =
     \<lparr>source_entity_id = 2, target_entity_id = 1, relation_type = ''discovered'',
      weight = 1 / 2, relation_chunks = {5}\<rparr>"



section \<open>Properties of tensor.hpp\<close>

text \<open>
  C10. Every Tensor value, whether default-constructed or constructed from any shape and
  dtype, answers its accessors with constants: \<open>byte_size\<close> is 0, \<open>shape\<close> is the empty
  vector, and \<open>raw\<close> and \<open>data\<close> (at every element type) are the null pointer.
\<close>

theorem Tensor_accessors_are_stubs:
  "byte_size t = 0 \<and> shape t = [] \<and> raw t = nullptr \<and> (data t :: 'a ptr) = nullptr \<and>
   byte_size Tensor_default = 0 \<and> shape Tensor_default = [] \<and>
   raw Tensor_default = nullptr \<and> (data Tensor_default :: 'b ptr) = nullptr \<and>
   byte_size (Tensor_ctor dims dtype) = 0 \<and> shape (Tensor_ctor dims dtype) = [] \<and>
   raw (Tensor_ctor dims dtype) = nullptr \<and> (data (Tensor_ctor dims dtype) :: 'c ptr) = nullptr"
  by (simp add: byte_size_def shape_def raw_def data_def)


section \<open>Properties of main.cpp\<close>

lemma parse_loop_no_model:
  "\<not> (\<exists>j. j + 1 < length args \<and> args ! j = ''--model'') \<Longrightarrow> parse_loop args i mp = mp"
proof (induction args i mp rule: parse_loop.induct)
  case (1 args i model_path)
  show ?case
  proof (cases "i < length args")
    case False
    then show ?thesis by (simp add: parse_loop.simps)
  next
    case True
    from "1.prems" have no: "\<not> (args ! i = ''--model'' \<and> i + 1 < length args)"
      by blast
    with True "1.IH"(2) "1.prems" have "parse_loop args (i + 1) model_path = model_path"
      by blast
    with True no show ?thesis
      by (subst parse_loop.simps) auto
  qed
qed

text \<open>
  C8. When no \<open>--model\<close> in the argument list is followed by a further argument,
  \<open>model_path\<close> stays empty, and \<open>main\<close> prints the usage message and returns 1; its trace
  holds no call of the loader.
\<close>

theorem main_without_model_prints_usage:
  assumes "\<not> (\<exists>i. i + 1 < length args \<and> args ! i = ''--model'')"
  shows "parse_args args = [] \<and>
         main load_onnx_initializers args = ([Cout (Str usage)], 1) \<and>
         filter is_Load (fst (main load_onnx_initializers args)) = []"
proof -
  from assms have "parse_args args = []"
    unfolding parse_args_def by (rule parse_loop_no_model)
  then show ?thesis
    by (simp add: main_def print_usage_def)
qed

theorem main_without_model_prints_usage_witness:
  "\<not> (\<exists>i. i + 1 < length [''--prompt'', ''hi'', ''--model''] \<and>
          [''--prompt'', ''hi'', ''--model''] ! i = ''--model'') \<and>
   parse_args [''--prompt'', ''hi'', ''--model''] = [] \<and>
   main (\<lambda>p. Loaded [(''w'', TensorObj)]) [''--prompt'', ''hi'', ''--model'']
     = ([Cout (Str usage)], 1) \<and>
   filter is_Load (fst (main (\<lambda>p. Loaded [(''w'', TensorObj)])
     [''--prompt'', ''hi'', ''--model''])) = []"
proof -
  have h: "\<not> (\<exists>i. i + 1 < length [''--prompt'', ''hi'', ''--model''] \<and>
               [''--prompt'', ''hi'', ''--model''] ! i = ''--model'')"
    by (auto simp: nth_Cons' less_Suc_eq)
  show ?thesis
    using h main_without_model_prints_usage [OF h, of "\<lambda>p. Loaded [(''w'', TensorObj)]"]
    by blast
qed

text \<open>
  The loop started at an index that it really visits: the result is decided by the last
  option position from there on.
\<close>

lemma parse_loop_options:
  "i \<le> length args \<Longrightarrow> (i < length args \<longrightarrow> even (run_before args i)) \<Longrightarrow>
   parse_loop args i mp =
     (let occ = filter (option_pos args) [i..<length args]
      in if occ = [] then mp else args ! (last occ + 1))"
proof (induction args i mp rule: parse_loop.induct)
  case (1 args i mp)
  show ?case
  proof (cases "i < length args")
    case False
    then show ?thesis by (simp add: parse_loop.simps)
  next
    case True
    note inb = True
    show ?thesis
    proof (cases "args ! i = ''--model'' \<and> i + 1 < length args")
      case True
      then have fire: "args ! i = ''--model''" "i + 1 < length args" by auto
      from inb "1.prems" have ev: "even (run_before args i)" by simp
      have pos_i: "option_pos args i"
        using fire ev by (simp add: option_pos_def)
      have odd: "\<not> option_pos args (i + 1)"
        using fire ev by (simp add: option_pos_def)
      have ev2: "i + 1 + 1 < length args \<longrightarrow> even (run_before args (i + 1 + 1))"
        using fire ev by simp
      have le2: "i + 1 + 1 \<le> length args" using fire by simp
      have IH: "parse_loop args (i + 1 + 1) (args ! (i + 1)) =
          (let occ = filter (option_pos args) [i + 1 + 1..<length args]
           in if occ = [] then args ! (i + 1) else args ! (last occ + 1))"
        using "1.IH"(1) [OF inb True le2 ev2] .
      have split: "[i..<length args] = i # (i + 1) # [i + 1 + 1..<length args]"
        using fire by (simp add: upt_rec)
      have "parse_loop args i mp = parse_loop args (i + 1 + 1) (args ! (i + 1))"
        using inb True by (subst parse_loop.simps) simp
      also note IH
      finally show ?thesis
        using pos_i odd by (simp add: split Let_def)
    next
      case False
      have npos: "\<not> option_pos args i"
        using False by (auto simp: option_pos_def)
      have ev1: "i + 1 < length args \<longrightarrow> even (run_before args (i + 1))"
        using False by auto
      have le1: "i + 1 \<le> length args" using inb by simp
      have IH: "parse_loop args (i + 1) mp =
          (let occ = filter (option_pos args) [i + 1..<length args]
           in if occ = [] then mp else args ! (last occ + 1))"
        using "1.IH"(2) [OF inb False le1 ev1] .
      have split: "[i..<length args] = i # [i + 1..<length args]"
        using inb by (simp add: upt_rec)
      have "parse_loop args i mp = parse_loop args (i + 1) mp"
        using inb False by (subst parse_loop.simps) auto
      also note IH
      finally show ?thesis
        using npos by (simp add: split Let_def)
    qed
  qed
qed

text \<open>
  C9, as stated: \<open>model_path\<close> is the argument after the last \<open>--model\<close> that has a
  following argument. It fails where a \<open>--model\<close> is itself consumed as a value: on
  \<open>--model --model x\<close> the loop takes the second \<open>--model\<close> as the path and never reads
  \<open>x\<close>.
\<close>

theorem parse_args_consumes_value_counterexample:
  "parse_args [''--model'', ''--model'', ''x''] = ''--model'' \<and>
   spec_model_path [''--model'', ''--model'', ''x''] = ''x'' \<and>
   parse_args [''--model'', ''--model'', ''x''] \<noteq>
     spec_model_path [''--model'', ''--model'', ''x'']"
  by (simp add: parse_args_def parse_loop.simps spec_model_path_def upt_rec)

text \<open>
  C9, amended: for every argument list, \<open>model_path\<close> ends as the argument immediately
  after the last \<open>--model\<close> that has a following argument and is preceded by an even
  number (possibly none) of directly consecutive \<open>--model\<close> arguments; it stays empty when
  there is no such occurrence. Nothing else in the list affects it.
\<close>

theorem parse_args_last_option:
  "parse_args args =
     (if model_options args = [] then [] else args ! (last (model_options args) + 1))"
  unfolding parse_args_def model_options_def
  by (subst parse_loop_options) (simp_all add: Let_def)

section \<open>Properties of the Graph Store and the Resolver\<close>

subsection \<open>What the store rejects\<close>

lemma upsert_relationship_missing_endpoint:
  "\<not> (source_entity_id r \<in> entity_ids g \<and> target_entity_id r \<in> entity_ids g) \<Longrightarrow>
   upsert_relationship g r = Inl GraphInvariantViolation"
  by (simp add: upsert_relationship_def)





subsection \<open>The invariant along an ingestion run\<close>

lemma entity_ids_upsert_entity: "entity_ids (upsert_entity g e) = insert (eid e) (entity_ids g)"
  by (auto simp: upsert_entity_def entity_ids_def image_iff)

lemma relationships_upsert_entity: "relationships (upsert_entity g e) = relationships g"
  by (simp add: upsert_entity_def)

lemma no_dangling_upsert_entity: "no_dangling g \<Longrightarrow> no_dangling (upsert_entity g e)"
  by (simp add: no_dangling_def entity_ids_upsert_entity relationships_upsert_entity)

lemma no_dangling_upsert_relationship:
  "no_dangling g \<Longrightarrow> upsert_relationship g r = Inr g' \<Longrightarrow> no_dangling g'"
  by (auto simp: no_dangling_def upsert_relationship_def entity_ids_def absorb_def
      split: if_splits)

lemma no_dangling_commit: "no_dangling g \<Longrightarrow> commit g m = Inr g' \<Longrightarrow> no_dangling g'"
  by (cases m) (auto intro: no_dangling_upsert_entity no_dangling_upsert_relationship)

lemma no_dangling_apply_mutation:
  "no_dangling (graph st) \<Longrightarrow> no_dangling (graph (apply_mutation st m))"
  by (auto simp: apply_mutation_def split: sum.splits intro: no_dangling_commit)

lemma no_dangling_resolve_entity:
  "no_dangling (graph st) \<Longrightarrow> no_dangling (graph (resolve_entity P st m))"
  by (simp add: resolve_entity_def no_dangling_apply_mutation split: option.splits)

lemma no_dangling_resolve_entities:
  "no_dangling (graph st) \<Longrightarrow> no_dangling (graph (foldl (resolve_entity P) st ms))"
  by (induction ms arbitrary: st) (simp_all add: no_dangling_resolve_entity)

lemma no_dangling_resolve_relation:
  "no_dangling (graph st) \<Longrightarrow> resolve_relation P st rm = Some st' \<Longrightarrow> no_dangling (graph st')"
  by (auto simp: resolve_relation_def no_dangling_apply_mutation split: option.splits)

lemma no_dangling_first_pass:
  "no_dangling (graph st) \<Longrightarrow> first_pass P st rms = (st', d) \<Longrightarrow> no_dangling (graph st')"
proof (induction rms arbitrary: st st' d)
  case Nil
  then show ?case by simp
next
  case (Cons rm rms)
  show ?case
  proof (cases "resolve_relation P st rm")
    case None
    with Cons.prems obtain d' where "first_pass P st rms = (st', d')"
      by (auto split: prod.splits)
    with Cons.IH Cons.prems(1) show ?thesis by blast
  next
    case (Some st1)
    with Cons.prems have "first_pass P st1 rms = (st', d)" by simp
    moreover from Some Cons.prems(1) have "no_dangling (graph st1)"
      by (rule no_dangling_resolve_relation [rotated])
    ultimately show ?thesis using Cons.IH by blast
  qed
qed

lemma no_dangling_second_pass:
  "no_dangling (graph st) \<Longrightarrow> no_dangling (graph (second_pass P st rms))"
proof (induction rms arbitrary: st)
  case Nil
  then show ?case by simp
next
  case (Cons rm rms)
  show ?case
  proof (cases "resolve_relation P st rm")
    case None
    then show ?thesis using Cons by simp
  next
    case (Some st1)
    then show ?thesis using Cons no_dangling_resolve_relation [OF Cons.prems Some] by simp
  qed
qed

lemma no_dangling_initial: "no_dangling (graph initial_state)"
  by (simp add: initial_state_def empty_graph_def no_dangling_def)

subsection \<open>Merging one Entity into another\<close>

lemma find_eid: "find (\<lambda>e. eid e = a) es = Some e \<Longrightarrow> eid e = a \<and> e \<in> set es"
  by (induction es) (auto split: if_splits)

lemma find_eid_None: "find (\<lambda>e. eid e = a) es = None \<longleftrightarrow> a \<notin> eid ` set es"
  by (induction es) auto

lemma entities_upsert_relationship:
  "entities (graph (apply_mutation s (UpsertRelationship r))) = entities (graph s)"
  by (simp add: apply_mutation_def upsert_relationship_def)

lemma entities_upsert_relationships:
  "entities (graph (foldl (\<lambda>s r. apply_mutation s (UpsertRelationship (f r))) s rs))
     = entities (graph s)"
  by (induction rs arbitrary: s) (simp_all add: entities_upsert_relationship)

lemma no_dangling_upsert_relationships:
  "no_dangling (graph s) \<Longrightarrow>
   no_dangling (graph (foldl (\<lambda>s r. apply_mutation s (UpsertRelationship (f r))) s rs))"
  by (induction rs arbitrary: s) (simp_all add: no_dangling_apply_mutation)

text \<open>The graph from which a merge rebuilds the edges: the Entities without \<open>a\<close>, with the
  merged Entity in the place of \<open>b\<close>, and no edge yet.\<close>

lemma merge_entities_unfold:
  assumes "find (\<lambda>e. eid e = a) (entities (graph st)) = Some ea"
    and "find (\<lambda>e. eid e = b) (entities (graph st)) = Some eb"
    and "a \<noteq> b"
  shows "merge_entities P st a b =
     foldl (\<lambda>s r. apply_mutation s (UpsertRelationship (redirect a b r)))
       (st\<lparr>graph := upsert_entity
            \<lparr>entities = filter (\<lambda>e. eid e \<noteq> a) (entities (graph st)), relationships = []\<rparr>
            (absorb_entity P ea eb)\<rparr>)
       (relationships (graph st))"
  using assms by (simp add: merge_entities_def apply_mutation_def)

lemma merge_entities_entities:
  assumes "find (\<lambda>e. eid e = a) (entities (graph st)) = Some ea"
    and "find (\<lambda>e. eid e = b) (entities (graph st)) = Some eb"
    and "a \<noteq> b"
  shows "entities (graph (merge_entities P st a b)) =
     map (\<lambda>x. if eid x = b then absorb_entity P ea eb else x)
       (filter (\<lambda>e. eid e \<noteq> a) (entities (graph st)))"
proof -
  from assms(2) have b: "eid eb = b" "eb \<in> set (entities (graph st))"
    by (auto dest: find_eid)
  with assms(3) have "b \<in> eid ` set (filter (\<lambda>e. eid e \<noteq> a) (entities (graph st)))"
    by force
  then show ?thesis
    using b(1)
    by (simp add: merge_entities_unfold [OF assms] entities_upsert_relationships
        upsert_entity_def entity_ids_def absorb_entity_def)
qed

lemma merge_entities_ids:
  assumes "a \<noteq> b" and "a \<in> entity_ids (graph st)" and "b \<in> entity_ids (graph st)"
  shows "entity_ids (graph (merge_entities P st a b)) = entity_ids (graph st) - {a}"
proof -
  from assms(2) obtain ea where ea: "find (\<lambda>e. eid e = a) (entities (graph st)) = Some ea"
    by (cases "find (\<lambda>e. eid e = a) (entities (graph st))")
      (auto simp: find_eid_None entity_ids_def)
  from assms(3) obtain eb where eb: "find (\<lambda>e. eid e = b) (entities (graph st)) = Some eb"
    by (cases "find (\<lambda>e. eid e = b) (entities (graph st))")
      (auto simp: find_eid_None entity_ids_def)
  have "eid (absorb_entity P ea eb) = b"
    using find_eid [OF eb] by (simp add: absorb_entity_def)
  then have "map eid (map (\<lambda>x. if eid x = b then absorb_entity P ea eb else x)
       (filter (\<lambda>e. eid e \<noteq> a) (entities (graph st))))
     = map eid (filter (\<lambda>e. eid e \<noteq> a) (entities (graph st)))"
    by (induction "entities (graph st)") (auto intro!: map_cong)
  then have "eid ` set (map (\<lambda>x. if eid x = b then absorb_entity P ea eb else x)
       (filter (\<lambda>e. eid e \<noteq> a) (entities (graph st))))
     = eid ` set (filter (\<lambda>e. eid e \<noteq> a) (entities (graph st)))"
    by (metis set_map)
  also have "\<dots> = eid ` set (entities (graph st)) - {a}"
    by auto
  finally show ?thesis
    by (simp add: entity_ids_def merge_entities_entities [OF ea eb assms(1)])
qed

lemma merge_entities_shrinks:
  assumes "a \<noteq> b" and "a \<in> entity_ids (graph st)" and "b \<in> entity_ids (graph st)"
  shows "length (entities (graph (merge_entities P st a b))) < length (entities (graph st))"
proof -
  from assms(2) obtain ea where ea: "find (\<lambda>e. eid e = a) (entities (graph st)) = Some ea"
    by (cases "find (\<lambda>e. eid e = a) (entities (graph st))")
      (auto simp: find_eid_None entity_ids_def)
  from assms(3) obtain eb where eb: "find (\<lambda>e. eid e = b) (entities (graph st)) = Some eb"
    by (cases "find (\<lambda>e. eid e = b) (entities (graph st))")
      (auto simp: find_eid_None entity_ids_def)
  from find_eid [OF ea] have "ea \<in> set (entities (graph st))" and "\<not> eid ea \<noteq> a"
    by auto
  then have "length (filter (\<lambda>e. eid e \<noteq> a) (entities (graph st)))
      < length (entities (graph st))"
    by (rule length_filter_less)
  then show ?thesis
    by (simp add: merge_entities_entities [OF ea eb assms(1)])
qed

termination merge_pass
  by (relation "measure (\<lambda>(D, P, st). length (entities (graph st)))")
    (auto intro: merge_entities_shrinks)

declare merge_pass.simps [simp del]

lemma no_dangling_merge_entities:
  "no_dangling (graph st) \<Longrightarrow> no_dangling (graph (merge_entities P st a b))"
proof (cases "find (\<lambda>e. eid e = a) (entities (graph st))")
  case None
  then show "no_dangling (graph st) \<Longrightarrow> ?thesis" by (simp add: merge_entities_def)
next
  case ea: (Some ea)
  show "no_dangling (graph st) \<Longrightarrow> ?thesis"
  proof (cases "find (\<lambda>e. eid e = b) (entities (graph st))")
    case None
    then show "no_dangling (graph st) \<Longrightarrow> ?thesis" by (simp add: merge_entities_def ea)
  next
    case eb: (Some eb)
    show "no_dangling (graph st) \<Longrightarrow> ?thesis"
    proof (cases "a = b")
      case True
      then show "no_dangling (graph st) \<Longrightarrow> ?thesis" by (simp add: merge_entities_def ea eb)
    next
      case False
      have "no_dangling (upsert_entity
            \<lparr>entities = filter (\<lambda>e. eid e \<noteq> a) (entities (graph st)), relationships = []\<rparr>
            (absorb_entity P ea eb))"
        by (rule no_dangling_upsert_entity) (simp add: no_dangling_def)
      then show ?thesis
        by (simp add: merge_entities_unfold [OF ea eb False] no_dangling_upsert_relationships)
    qed
  qed
qed

lemma no_dangling_merge_pass:
  "no_dangling (graph st) \<Longrightarrow> no_dangling (graph (merge_pass D P st))"
proof (induction D P st rule: merge_pass.induct)
  case (1 D P st)
  show ?case
  proof (cases "D (graph st)")
    case None
    then show ?thesis using "1.prems" by (simp add: merge_pass.simps)
  next
    case (Some p)
    obtain a b where p: "p = (a, b)" by (cases p)
    show ?thesis
    proof (cases "a \<noteq> b \<and> a \<in> entity_ids (graph st) \<and> b \<in> entity_ids (graph st)")
      case True
      from "1.prems" have "no_dangling (graph (merge_entities P st a b))"
        by (rule no_dangling_merge_entities)
      with "1.IH" [OF Some p [symmetric] True]
      have "no_dangling (graph (merge_pass D P (merge_entities P st a b)))" .
      then show ?thesis
        using Some p True by (subst merge_pass.simps) simp
    next
      case False
      then show ?thesis
        using Some p "1.prems" by (subst merge_pass.simps) auto
    qed
  qed
qed

lemma no_dangling_resolve_mention:
  "no_dangling (graph st) \<Longrightarrow> no_dangling (graph (resolve_mention D P st m))"
  by (simp add: resolve_mention_def no_dangling_merge_pass no_dangling_resolve_entity)

lemma no_dangling_resolve_mentions:
  "no_dangling (graph st) \<Longrightarrow> no_dangling (graph (foldl (resolve_mention D P) st ms))"
  by (induction ms arbitrary: st) (simp_all add: no_dangling_resolve_mention)

lemma no_dangling_resolve:
  "no_dangling (graph st) \<Longrightarrow> no_dangling (graph (resolve D P st batch))"
proof -
  assume inv: "no_dangling (graph st)"
  obtain mentions relations where batch: "batch = (mentions, relations)"
    by (cases batch)
  obtain st' deferred
    where fp: "first_pass P (foldl (resolve_mention D P) st mentions) relations = (st', deferred)"
    by (cases "first_pass P (foldl (resolve_mention D P) st mentions) relations")
  from inv have "no_dangling (graph (foldl (resolve_mention D P) st mentions))"
    by (rule no_dangling_resolve_mentions)
  then have "no_dangling (graph st')"
    using fp by (rule no_dangling_first_pass)
  then have "no_dangling (graph (second_pass P st' deferred))"
    by (rule no_dangling_second_pass)
  then show ?thesis
    by (simp add: resolve_def batch fp)
qed

lemma no_dangling_ingest:
  "no_dangling (graph st) \<Longrightarrow> no_dangling (graph (ingest D P st batches))"
  unfolding ingest_def
  by (induction batches arbitrary: st) (simp_all add: no_dangling_resolve)



subsection \<open>A merge keeps the edges that do not join the two Entities\<close>

lemma upsert_relationship_result:
  assumes "upsert_relationship g r = Inr g'"
  shows "relationships g' =
      map (\<lambda>x. if same_edge r x then absorb x r else x) (relationships g) \<and>
      list_ex (same_edge r) (relationships g) \<or>
    relationships g' = relationships g @ [r]"
  using assms by (auto simp: upsert_relationship_def split: if_splits)

lemma upsert_relationship_keeps_key:
  assumes "\<exists>r' \<in> set (relationships (graph s)). same_edge k r'"
  shows "\<exists>r' \<in> set (relationships (graph (apply_mutation s (UpsertRelationship r)))).
      same_edge k r'"
proof (cases "upsert_relationship (graph s) r")
  case (Inl e)
  then show ?thesis using assms by (simp add: apply_mutation_def)
next
  case (Inr g')
  from assms obtain r' where r': "r' \<in> set (relationships (graph s))" "same_edge k r'"
    by blast
  let ?F = "\<lambda>x. if same_edge r x then absorb x r else x"
  have key: "same_edge k (?F r')"
    using r'(2) by (simp add: same_edge_def absorb_def)
  have "\<exists>x \<in> set (relationships g'). same_edge k x"
    using upsert_relationship_result [OF Inr]
  proof (elim disjE conjE)
    assume eq: "relationships g' = map ?F (relationships (graph s))"
    from r'(1) have "?F r' \<in> set (relationships g')"
      unfolding eq set_map by (rule imageI)
    with key show ?thesis by blast
  next
    assume "relationships g' = relationships (graph s) @ [r]"
    with r' show ?thesis by auto
  qed
  then show ?thesis using Inr by (simp add: apply_mutation_def)
qed

lemma upsert_relationships_keep_key:
  "\<exists>r' \<in> set (relationships (graph s)). same_edge k r' \<Longrightarrow>
   \<exists>r' \<in> set (relationships
       (graph (foldl (\<lambda>s r. apply_mutation s (UpsertRelationship (f r))) s rs))). same_edge k r'"
proof (induction rs arbitrary: s)
  case Nil
  then show ?case by simp
next
  case (Cons r rs)
  from Cons.prems
  have "\<exists>r' \<in> set (relationships (graph (apply_mutation s (UpsertRelationship (f r))))).
      same_edge k r'"
    by (rule upsert_relationship_keeps_key)
  then show ?case using Cons.IH by simp
qed

lemma upsert_relationship_adds_key:
  assumes "source_entity_id r \<noteq> target_entity_id r"
    and "source_entity_id r \<in> entity_ids (graph s)"
    and "target_entity_id r \<in> entity_ids (graph s)"
  shows "\<exists>r' \<in> set (relationships (graph (apply_mutation s (UpsertRelationship r)))).
      same_edge r r'"
proof -
  from assms obtain g' where Inr: "upsert_relationship (graph s) r = Inr g'"
    by (cases "list_ex (same_edge r) (relationships (graph s))")
      (simp_all add: upsert_relationship_def)
  let ?F = "\<lambda>x. if same_edge r x then absorb x r else x"
  have "\<exists>x \<in> set (relationships g'). same_edge r x"
    using upsert_relationship_result [OF Inr]
  proof (elim disjE conjE)
    assume eq: "relationships g' = map ?F (relationships (graph s))"
      and "list_ex (same_edge r) (relationships (graph s))"
    then obtain r' where r': "r' \<in> set (relationships (graph s))" "same_edge r r'"
      by (auto simp: list_ex_iff)
    from r'(2) have key: "same_edge r (?F r')"
      by (simp add: same_edge_def absorb_def)
    from r'(1) have "?F r' \<in> set (relationships g')"
      unfolding eq set_map by (rule imageI)
    with key show ?thesis by blast
  next
    assume "relationships g' = relationships (graph s) @ [r]"
    then show ?thesis by (simp add: same_edge_def)
  qed
  then show ?thesis using Inr by (simp add: apply_mutation_def)
qed

lemma upsert_relationships_add_keys:
  assumes "r \<in> set rs"
    and "source_entity_id (f r) \<noteq> target_entity_id (f r)"
    and "source_entity_id (f r) \<in> entity_ids (graph s)"
    and "target_entity_id (f r) \<in> entity_ids (graph s)"
  shows "\<exists>r' \<in> set (relationships
       (graph (foldl (\<lambda>s r. apply_mutation s (UpsertRelationship (f r))) s rs))).
     same_edge (f r) r'"
  using assms
proof (induction rs arbitrary: s)
  case Nil
  then show ?case by simp
next
  case (Cons x rs)
  let ?s = "apply_mutation s (UpsertRelationship (f x))"
  have ids: "entity_ids (graph ?s) = entity_ids (graph s)"
    by (simp add: entity_ids_def entities_upsert_relationship)
  show ?case
  proof (cases "x = r")
    case True
    from Cons.prems(2-4) have "\<exists>r' \<in> set (relationships (graph ?s)). same_edge (f r) r'"
      unfolding True by (rule upsert_relationship_adds_key)
    then show ?thesis
      by (simp add: upsert_relationships_keep_key)
  next
    case False
    with Cons.prems(1) have "r \<in> set rs" by simp
    then show ?thesis
      using Cons.IH [of ?s] Cons.prems(2-4) ids by simp
  qed
qed

lemma merge_entities_keeps_edges:
  assumes inv: "no_dangling (graph st)"
    and ab: "a \<noteq> b" "a \<in> entity_ids (graph st)" "b \<in> entity_ids (graph st)"
    and r: "r \<in> set (relationships (graph st))"
    and noloop: "source_entity_id (redirect a b r) \<noteq> target_entity_id (redirect a b r)"
  shows "\<exists>r' \<in> set (relationships (graph (merge_entities P st a b))).
      same_edge (redirect a b r) r'"
proof -
  from ab(2) obtain ea where ea: "find (\<lambda>e. eid e = a) (entities (graph st)) = Some ea"
    by (cases "find (\<lambda>e. eid e = a) (entities (graph st))")
      (auto simp: find_eid_None entity_ids_def)
  from ab(3) obtain eb where eb: "find (\<lambda>e. eid e = b) (entities (graph st)) = Some eb"
    by (cases "find (\<lambda>e. eid e = b) (entities (graph st))")
      (auto simp: find_eid_None entity_ids_def)
  let ?s0 = "st\<lparr>graph := upsert_entity
            \<lparr>entities = filter (\<lambda>e. eid e \<noteq> a) (entities (graph st)), relationships = []\<rparr>
            (absorb_entity P ea eb)\<rparr>"
  have "eid (absorb_entity P ea eb) = b"
    using find_eid [OF eb] by (simp add: absorb_entity_def)
  moreover have "entity_ids
      \<lparr>entities = filter (\<lambda>e. eid e \<noteq> a) (entities (graph st)), relationships = []\<rparr>
    = entity_ids (graph st) - {a}"
    by (auto simp: entity_ids_def)
  ultimately have ids0: "entity_ids (graph ?s0) = insert b (entity_ids (graph st) - {a})"
    by (simp add: entity_ids_upsert_entity)
  from inv r have ends: "source_entity_id r \<in> entity_ids (graph st)"
      "target_entity_id r \<in> entity_ids (graph st)"
    by (auto simp: no_dangling_def)
  have "source_entity_id (redirect a b r) \<in> entity_ids (graph ?s0)"
    and "target_entity_id (redirect a b r) \<in> entity_ids (graph ?s0)"
    using ends unfolding ids0 by (auto simp: redirect_def remap_id_def)
  with r noloop
  have "\<exists>r' \<in> set (relationships
       (graph (foldl (\<lambda>s r. apply_mutation s (UpsertRelationship (redirect a b r))) ?s0
          (relationships (graph st))))). same_edge (redirect a b r) r'"
    by (rule upsert_relationships_add_keys)
  then show ?thesis
    by (simp add: merge_entities_unfold [OF ea eb ab(1)])
qed

lemmas merge_example_defs = ingest_def resolve_def resolve_mention_def merge_pass.simps
  merge_entities_def absorb_entity_def redirect_def remap_id_def
  resolve_entity_def resolve_relation_def
  resolve_surface_def find_match_def exact_match_def merge_mention_def new_entity_def
  fresh_id_def apply_mutation_def upsert_entity_def upsert_relationship_def
  entity_ids_def same_edge_def absorb_def initial_state_def empty_graph_def
  example_refining_policy_def example_duplicates_def example_first_batch_def
  example_second_batch_def

text \<open>
  C1. Whatever sequence of mention sets is resolved into the graph, under every policy
  and every choice of the duplicates that the Resolver merges, from the empty graph or
  from any graph without dangling edges, the endpoints of every Relationship are ids of
  Entities of the graph. A merge takes the losing Entity out of the Entity set and still
  leaves no edge dangling, and it keeps, under the remapped ids, every edge that has not
  become a self-loop. An \<open>upsert_relationship\<close> with a missing endpoint is rejected with
  \<open>GraphInvariantViolation\<close>, and the graph of the run stays as it was.
\<close>

theorem ingest_no_dangling_edges:
  "no_dangling (graph (ingest D P initial_state batches)) \<and>
   (no_dangling (graph st) \<longrightarrow> no_dangling (graph (ingest D P st batches))) \<and>
   (no_dangling (graph st) \<and> a \<noteq> b \<and>
    a \<in> entity_ids (graph st) \<and> b \<in> entity_ids (graph st) \<longrightarrow>
      entity_ids (graph (merge_entities P st a b)) = entity_ids (graph st) - {a} \<and>
      no_dangling (graph (merge_entities P st a b)) \<and>
      (\<forall>e \<in> set (relationships (graph st)).
         source_entity_id (redirect a b e) \<noteq> target_entity_id (redirect a b e) \<longrightarrow>
         (\<exists>e' \<in> set (relationships (graph (merge_entities P st a b))).
            same_edge (redirect a b e) e'))) \<and>
   (\<not> (source_entity_id r \<in> entity_ids (graph st) \<and>
        target_entity_id r \<in> entity_ids (graph st)) \<longrightarrow>
      upsert_relationship (graph st) r = Inl GraphInvariantViolation \<and>
      graph (apply_mutation st (UpsertRelationship r)) = graph st)"
proof (intro conjI impI ballI)
  show "no_dangling (graph (ingest D P initial_state batches))"
    using no_dangling_initial by (rule no_dangling_ingest)
next
  assume "no_dangling (graph st)"
  then show "no_dangling (graph (ingest D P st batches))"
    by (rule no_dangling_ingest)
next
  assume "no_dangling (graph st) \<and> a \<noteq> b \<and>
    a \<in> entity_ids (graph st) \<and> b \<in> entity_ids (graph st)"
  then show "entity_ids (graph (merge_entities P st a b)) = entity_ids (graph st) - {a}"
    by (simp add: merge_entities_ids)
next
  assume "no_dangling (graph st) \<and> a \<noteq> b \<and>
    a \<in> entity_ids (graph st) \<and> b \<in> entity_ids (graph st)"
  then show "no_dangling (graph (merge_entities P st a b))"
    by (simp add: no_dangling_merge_entities)
next
  fix e
  assume "no_dangling (graph st) \<and> a \<noteq> b \<and>
    a \<in> entity_ids (graph st) \<and> b \<in> entity_ids (graph st)"
    and "e \<in> set (relationships (graph st))"
    and "source_entity_id (redirect a b e) \<noteq> target_entity_id (redirect a b e)"
  then show "\<exists>e' \<in> set (relationships (graph (merge_entities P st a b))).
            same_edge (redirect a b e) e'"
    by (blast intro: merge_entities_keeps_edges)
next
  assume missing: "\<not> (source_entity_id r \<in> entity_ids (graph st) \<and>
        target_entity_id r \<in> entity_ids (graph st))"
  then show rej: "upsert_relationship (graph st) r = Inl GraphInvariantViolation"
    by (rule upsert_relationship_missing_endpoint)
  then show "graph (apply_mutation st (UpsertRelationship r)) = graph st"
    by (simp add: apply_mutation_def)
qed

lemma merge_example_first:
  "map eid (entities (graph
       (ingest example_duplicates example_refining_policy initial_state
          [example_first_batch]))) = [0, 1, 2] \<and>
   map (\<lambda>r. (source_entity_id r, target_entity_id r, relation_type r))
     (relationships (graph
       (ingest example_duplicates example_refining_policy initial_state
          [example_first_batch])))
     = [(2, 1, ''discovered''), (0, 2, ''is''), (0, 1, ''discovered'')]"
  by (simp add: merge_example_defs)

lemma merge_example_final:
  "map eid (entities (graph
       (ingest example_duplicates example_refining_policy initial_state
          [example_first_batch, example_second_batch]))) = [0, 1] \<and>
   map (\<lambda>r. (source_entity_id r, target_entity_id r, relation_type r, weight r))
     (relationships (graph
       (ingest example_duplicates example_refining_policy initial_state
          [example_first_batch, example_second_batch])))
     = [(0, 1, ''discovered'', 3 / 4), (0, 1, ''studied'', 1 / 2)]"
  by (simp add: merge_example_defs)

theorem ingest_no_dangling_edges_witness:
  "no_dangling (graph (ingest example_duplicates example_refining_policy initial_state
      [example_first_batch, example_second_batch])) \<and>
   map eid (entities (graph (ingest example_duplicates example_refining_policy initial_state
      [example_first_batch]))) = [0, 1, 2] \<and>
   map (\<lambda>r. (source_entity_id r, target_entity_id r, relation_type r))
     (relationships (graph (ingest example_duplicates example_refining_policy initial_state
        [example_first_batch])))
     = [(2, 1, ''discovered''), (0, 2, ''is''), (0, 1, ''discovered'')] \<and>
   map eid (entities (graph (ingest example_duplicates example_refining_policy initial_state
      [example_first_batch, example_second_batch]))) = [0, 1] \<and>
   map (\<lambda>r. (source_entity_id r, target_entity_id r, relation_type r, weight r))
     (relationships (graph (ingest example_duplicates example_refining_policy initial_state
        [example_first_batch, example_second_batch])))
     = [(0, 1, ''discovered'', 3 / 4), (0, 1, ''studied'', 1 / 2)] \<and>
   entity_ids (graph (merge_entities example_refining_policy
      (ingest example_duplicates example_refining_policy initial_state [example_first_batch])
      2 0)) = {0, 1} \<and>
   no_dangling (graph (merge_entities example_refining_policy
      (ingest example_duplicates example_refining_policy initial_state [example_first_batch])
      2 0)) \<and>
   \<not> (source_entity_id example_dangling
        \<in> entity_ids (graph (ingest example_duplicates example_refining_policy initial_state
             [example_first_batch, example_second_batch])) \<and>
      target_entity_id example_dangling
        \<in> entity_ids (graph (ingest example_duplicates example_refining_policy initial_state
             [example_first_batch, example_second_batch]))) \<and>
   upsert_relationship
     (graph (ingest example_duplicates example_refining_policy initial_state
        [example_first_batch, example_second_batch]))
     example_dangling = Inl GraphInvariantViolation \<and>
   graph (apply_mutation
      (ingest example_duplicates example_refining_policy initial_state
         [example_first_batch, example_second_batch])
      (UpsertRelationship example_dangling))
     = graph (ingest example_duplicates example_refining_policy initial_state
         [example_first_batch, example_second_batch])"
proof -
  let ?st1 = "ingest example_duplicates example_refining_policy initial_state
      [example_first_batch]"
  let ?fin = "ingest example_duplicates example_refining_policy initial_state
      [example_first_batch, example_second_batch]"
  note first = merge_example_first
  note final = merge_example_final
  from first have ids1: "entity_ids (graph ?st1) = {0, 1, 2}"
    unfolding entity_ids_def set_map [symmetric] by auto
  from final have ids2: "entity_ids (graph ?fin) = {0, 1}"
    unfolding entity_ids_def set_map [symmetric] by auto
  have nd1: "no_dangling (graph ?st1)"
    using ingest_no_dangling_edges
      [where D = example_duplicates and P = example_refining_policy
         and batches = "[example_first_batch]"]
    by blast
  have merge_hyp: "no_dangling (graph ?st1) \<and> (2::nat) \<noteq> 0 \<and>
      2 \<in> entity_ids (graph ?st1) \<and> 0 \<in> entity_ids (graph ?st1)"
    using nd1 ids1 by simp
  have missing: "\<not> (source_entity_id example_dangling \<in> entity_ids (graph ?fin) \<and>
      target_entity_id example_dangling \<in> entity_ids (graph ?fin))"
    using ids2 by (simp add: example_dangling_def)
  note at_merge = ingest_no_dangling_edges
      [where D = example_duplicates and P = example_refining_policy
         and batches = "[example_first_batch, example_second_batch]"
         and st = ?st1 and a = 2 and b = 0]
  note at_end = ingest_no_dangling_edges
      [where D = example_duplicates and P = example_refining_policy
         and st = ?fin and r = example_dangling]
  from at_merge have "no_dangling (graph ?fin)"
    by blast
  moreover from at_merge merge_hyp
  have "entity_ids (graph (merge_entities example_refining_policy ?st1 2 0))
      = entity_ids (graph ?st1) - {2}"
    and "no_dangling (graph (merge_entities example_refining_policy ?st1 2 0))"
    by blast+
  moreover have "entity_ids (graph ?st1) - {2} = {0, 1}"
    unfolding ids1 by auto
  moreover from at_end missing
  have "upsert_relationship (graph ?fin) example_dangling = Inl GraphInvariantViolation"
    and "graph (apply_mutation ?fin (UpsertRelationship example_dangling)) = graph ?fin"
    by blast+
  ultimately show ?thesis
    using first final missing by simp
qed




end
